theory Spec2Isabelle
  imports Main "HOL-Library.FSet"
begin

section \<open>Session voting of the management bot (\<open>src/bot.py\<close>, class \<open>SessionVoteView\<close>)\<close>

text \<open>
  The view keeps a Python \<open>set[int]\<close> of voter ids, a threshold, the member who started the
  vote and the label of its Vote button. Its two button callbacks are coroutines: between two
  \<open>await\<close>s a callback runs without interruption, at an \<open>await\<close> it is suspended until the
  awaited Discord call returns or raises. A callback is modelled segment by segment: the
  first segment by \<open>vote_button_begin\<close> (or \<open>view_voters_button_begin\<close>), every later one by
  \<open>resume\<close>, which is told how the awaited call ended. \<open>run\<close> drives one callback to its end.
\<close>

subsection \<open>Python's \<open>str\<close> on integers and \<open>" ".join\<close>\<close>

definition digit :: "nat \<Rightarrow> char" where
  "digit n = ''0123456789'' ! (n mod 10)"

fun str_nat :: "nat \<Rightarrow> string" where
  "str_nat n = (if n < 10 then [digit n] else str_nat (n div 10) @ [digit n])"

declare str_nat.simps [simp del]

definition str_int :: "int \<Rightarrow> string" where
  "str_int k = (if k < 0 then CHR ''-'' # str_nat (nat (- k)) else str_nat (nat k))"

fun join_space :: "string list \<Rightarrow> string" where
  "join_space [] = []"
| "join_space [x] = x"
| "join_space (x # y # ys) = x @ '' '' @ join_space (y # ys)"

subsection \<open>Data\<close>

text \<open>A \<open>discord.Member\<close>: its id and the text of its \<open>mention\<close> property.\<close>

record member =
  member_id :: int
  mention :: string

text \<open>The fields of \<open>SessionVoteView\<close>; \<open>label\<close> is \<open>self.vote_button.label\<close>.\<close>

record view =
  voters :: "int fset"
  vote_threshold :: int
  starter :: "member option"
  label :: string

text \<open>What a callback reads from its \<open>interaction\<close>: the clicking user and whether
  \<open>interaction.message\<close> is set.\<close>

record interaction =
  user :: member
  has_message :: bool

text \<open>The awaited Discord calls, with the text they carry, and the log entry of line 169.\<close>

datatype call =
    EditMessage string
  | FollowupSend string
  | MessageDelete
  | ResponseDefer
  | DeleteOriginalResponse
  | ChannelSend string
  | Reply string
  | SendMessage string

datatype event = Call call | LogException string

text \<open>How an awaited call ends: it returns, or it raises an exception of the kind
  \<open>except Exception\<close> catches (a failed delivery).\<close>

datatype outcome = Ok | Raise

text \<open>
  Where a callback is suspended (the awaited call, by source line), with the local
  \<open>vote_count\<close> where a later segment reads it; or how it ended: \<open>Returned\<close> normally,
  \<open>Raised\<close> with an exception leaving the callback.
\<close>

datatype task =
    AwaitEditRemoved nat
  | AwaitFollowupRemoved
  | AwaitEditAdded nat
  | AwaitDelete
  | AwaitDefer
  | AwaitDeleteOriginal
  | AwaitChannelSend
  | AwaitReply
  | AwaitFollowupCounted
  | AwaitSendMessage
  | Returned
  | Raised

text \<open>
  Iterating a Python \<open>set\<close> yields each member once, in an order the language leaves to the
  implementation. The order is no function of the members: in CPython it depends on the ids
  and on the insertions and removals the set object has seen. So the model does not compute
  it. Like the outcome of an awaited call, it is given from outside: a callback iterates
  over \<open>self.voters\<close> at most once (line 200, line 213), and its parameter \<open>iter\<close> tells
  what that one iteration yields, for the set the callback finds there. Different callbacks
  are given different \<open>iter\<close>s. \<open>iter_ok\<close> says that the sequence has the members of the
  set, each once.
\<close>

type_synonym set_iter = "int fset \<Rightarrow> int list"

definition iter_ok :: "set_iter \<Rightarrow> bool" where
  "iter_ok iter \<longleftrightarrow> (\<forall>S. fset_of_list (iter S) = S \<and> distinct (iter S))"

subsection \<open>Texts\<close>

definition vote_label :: "nat \<Rightarrow> string" where
  "vote_label n = ''Vote ('' @ str_nat n @ '')''"

definition removed_msg :: "nat \<Rightarrow> int \<Rightarrow> string" where
  "removed_msg vote_count threshold =
     ''Vote removed! ('' @ str_nat vote_count @ ''/'' @ str_int threshold @ '')''"

definition counted_msg :: "int \<Rightarrow> string" where
  "counted_msg remaining =
     ''Vote counted! **'' @ str_int remaining @ ''** more votes needed to start the session.''"

definition uid_mention :: "int \<Rightarrow> string" where
  "uid_mention uid = ''<@'' @ str_int uid @ ''>''"

definition voter_mentions :: "set_iter \<Rightarrow> view \<Rightarrow> string" where
  "voter_mentions iter s = join_space (map uid_mention (iter (voters s)))"

definition reply_msg :: "set_iter \<Rightarrow> view \<Rightarrow> string" where
  "reply_msg iter s =
     ''The following voters must join or will be moderated!'' @ [CHR 0x0A, CHR 0x0A]
       @ voter_mentions iter s"

definition current_voters_msg :: "set_iter \<Rightarrow> view \<Rightarrow> string" where
  "current_voters_msg iter s =
     ''**Current Voters ('' @ str_nat (fcard (voters s)) @ ''/''
       @ str_int (vote_threshold s) @ ''):**'' @ [CHR 0x0A] @ voter_mentions iter s"

definition starter_mention :: "interaction \<Rightarrow> view \<Rightarrow> string" where
  "starter_mention i s =
     (case starter s of Some m \<Rightarrow> mention m | None \<Rightarrow> mention (user i))"

subsection \<open>\<open>SessionVoteView.__init__\<close>\<close>

datatype error = ConfigurationError

text \<open>The constructor stores its arguments and has no check: it never raises.\<close>

definition init_view :: "int \<Rightarrow> member option \<Rightarrow> error + view" where
  "init_view threshold st =
     Inr \<lparr>voters = {||}, vote_threshold = threshold, starter = st, label = ''Vote (0)''\<rparr>"

subsection \<open>\<open>vote_button\<close> and \<open>view_voters_button\<close>\<close>

text \<open>Lines 139 to 154: the toggle, up to the first \<open>await\<close>.\<close>

definition vote_button_begin :: "interaction \<Rightarrow> view \<Rightarrow> task \<times> view \<times> event list" where
  "vote_button_begin i s =
     (let user_id = member_id (user i) in
      if user_id |\<in>| voters s then
        (let vs = voters s |-| {|user_id|};
             vote_count = fcard vs;
             s' = s\<lparr>voters := vs, label := vote_label vote_count\<rparr>
         in (AwaitEditRemoved vote_count, s', [Call (EditMessage (label s'))]))
      else
        (let vs = finsert user_id (voters s);
             vote_count = fcard vs;
             s' = s\<lparr>voters := vs, label := vote_label vote_count\<rparr>
         in (AwaitEditAdded vote_count, s', [Call (EditMessage (label s'))])))"

text \<open>Lines 210 to 214, up to the \<open>await\<close>.\<close>

definition view_voters_button_begin ::
  "set_iter \<Rightarrow> interaction \<Rightarrow> view \<Rightarrow> task \<times> view \<times> event list" where
  "view_voters_button_begin iter i s =
     (if voters s = {||} then (AwaitSendMessage, s, [Call (SendMessage ''No one has voted yet!'')])
      else (AwaitSendMessage, s, [Call (SendMessage (current_voters_msg iter s))]))"

text \<open>Lines 171 to 198: the announcement, the call on which every path through the
  deletion block ends.\<close>

definition announce :: "interaction \<Rightarrow> view \<Rightarrow> event" where
  "announce i s = Call (ChannelSend (starter_mention i s))"

definition log_delete_failed :: event where
  "log_delete_failed = LogException ''Failed to delete original vote message''"

text \<open>
  One segment of a callback: from the return (\<open>Ok\<close>) or the exception (\<open>Raise\<close>) of the
  awaited call to the next \<open>await\<close> or to the end. It gives the next suspension point, the
  view as the segment leaves it and what the segment emitted, in order.
\<close>

fun resume ::
  "set_iter \<Rightarrow> interaction \<Rightarrow> outcome \<Rightarrow> task \<Rightarrow> view \<Rightarrow> task \<times> view \<times> event list" where
  "resume iter i Ok (AwaitEditRemoved vote_count) s =
     (AwaitFollowupRemoved, s, [Call (FollowupSend (removed_msg vote_count (vote_threshold s)))])"
| "resume iter i Ok AwaitFollowupRemoved s = (Returned, s, [])"
| "resume iter i Ok (AwaitEditAdded vote_count) s =
     (let remaining = vote_threshold s - int vote_count in
      if remaining \<le> 0 then
        (if has_message i then (AwaitDelete, s, [Call MessageDelete])
         else (AwaitChannelSend, s, [announce i s]))
      else (AwaitFollowupCounted, s, [Call (FollowupSend (counted_msg remaining))]))"
| "resume iter i Ok AwaitDelete s = (AwaitChannelSend, s, [announce i s])"
| "resume iter i Raise AwaitDelete s = (AwaitDefer, s, [Call ResponseDefer])"
| "resume iter i Ok AwaitDefer s = (AwaitDeleteOriginal, s, [Call DeleteOriginalResponse])"
| "resume iter i Raise AwaitDefer s = (AwaitChannelSend, s, [log_delete_failed, announce i s])"
| "resume iter i Ok AwaitDeleteOriginal s = (AwaitChannelSend, s, [announce i s])"
| "resume iter i Raise AwaitDeleteOriginal s =
     (AwaitChannelSend, s, [log_delete_failed, announce i s])"
| "resume iter i Ok AwaitChannelSend s = (AwaitReply, s, [Call (Reply (reply_msg iter s))])"
| "resume iter i Ok AwaitReply s = (Returned, s\<lparr>voters := {||}, label := ''Vote (0)''\<rparr>, [])"
| "resume iter i Ok AwaitFollowupCounted s = (Returned, s, [])"
| "resume iter i Ok AwaitSendMessage s = (Returned, s, [])"
| "resume iter i r Returned s = (Returned, s, [])"
| "resume iter i r Raised s = (Raised, s, [])"
| "resume iter i Raise t s = (Raised, s, [])"

definition finished :: "task \<Rightarrow> bool" where
  "finished t \<longleftrightarrow> t = Returned \<or> t = Raised"

text \<open>The number of \<open>await\<close>s a callback can still reach from a suspension point.\<close>

fun awaits_left :: "task \<Rightarrow> nat" where
  "awaits_left (AwaitEditRemoved c) = 2"
| "awaits_left AwaitFollowupRemoved = 1"
| "awaits_left (AwaitEditAdded c) = 6"
| "awaits_left AwaitDelete = 5"
| "awaits_left AwaitDefer = 4"
| "awaits_left AwaitDeleteOriginal = 3"
| "awaits_left AwaitChannelSend = 2"
| "awaits_left AwaitReply = 1"
| "awaits_left AwaitFollowupCounted = 1"
| "awaits_left AwaitSendMessage = 1"
| "awaits_left Returned = 0"
| "awaits_left Raised = 0"

text \<open>
  A callback run to its end with nothing else running in between: \<open>io\<close> tells how the call
  awaited at each suspension point ends.
\<close>

function run ::
  "set_iter \<Rightarrow> interaction \<Rightarrow> (task \<Rightarrow> outcome) \<Rightarrow> task \<times> view \<times> event list
     \<Rightarrow> task \<times> view \<times> event list" where
  "run iter i io (t, s, es) =
     (if finished t then (t, s, es)
      else (case resume iter i (io t) t s of (t', s', es') \<Rightarrow> run iter i io (t', s', es @ es')))"
  by pat_completeness auto
termination
  apply (relation "measure (\<lambda>(iter, i, io, t, s, es). awaits_left t)")
   apply simp
  subgoal for iter i io t
    by (cases t; cases "io t") (auto simp: finished_def Let_def split: if_splits)
  done

declare run.simps [simp del]

definition vote_button ::
  "set_iter \<Rightarrow> interaction \<Rightarrow> (task \<Rightarrow> outcome) \<Rightarrow> view \<Rightarrow> task \<times> view \<times> event list" where
  "vote_button iter i io s = run iter i io (vote_button_begin i s)"

definition view_voters_button ::
  "set_iter \<Rightarrow> interaction \<Rightarrow> (task \<Rightarrow> outcome) \<Rightarrow> view \<Rightarrow> task \<times> view \<times> event list" where
  "view_voters_button iter i io s = run iter i io (view_voters_button_begin iter i s)"

text \<open>
  Clicks on the Vote button, each callback run to its end before the next click arrives;
  \<open>iter k\<close> is the iteration given to the callback of click \<open>k\<close>. \<open>play\<close> gives the view
  after the last click, \<open>clicks\<close> what each callback returned.
\<close>

fun play ::
  "(nat \<Rightarrow> set_iter) \<Rightarrow> view \<Rightarrow> (interaction \<times> (task \<Rightarrow> outcome)) list \<Rightarrow> view" where
  "play iter s [] = s"
| "play iter s ((i, io) # cs) =
     play (\<lambda>k. iter (Suc k)) (fst (snd (vote_button (iter 0) i io s))) cs"

fun clicks ::
  "(nat \<Rightarrow> set_iter) \<Rightarrow> view \<Rightarrow> (interaction \<times> (task \<Rightarrow> outcome)) list
     \<Rightarrow> (task \<times> view \<times> event list) list" where
  "clicks iter s [] = []"
| "clicks iter s ((i, io) # cs) =
     vote_button (iter 0) i io s
       # clicks (\<lambda>k. iter (Suc k)) (fst (snd (vote_button (iter 0) i io s))) cs"

subsection \<open>Reading the result of a callback\<close>

text \<open>The session start flow of lines 157 to 204 is the only place that sends to the
  channel: a callback started the session when it issued that call.\<close>

fun is_announce :: "event \<Rightarrow> bool" where
  "is_announce (Call (ChannelSend m)) = True"
| "is_announce e = False"

definition announced :: "task \<times> view \<times> event list \<Rightarrow> bool" where
  "announced r = list_ex is_announce (snd (snd r))"

text \<open>The reply of lines 200 and 201 when the iteration over \<open>self.voters\<close> yields the
  ids \<open>uids\<close>, in this order.\<close>

definition mentioning :: "int list \<Rightarrow> event" where
  "mentioning uids =
     Call (Reply (''The following voters must join or will be moderated!'' @ [CHR 0x0A, CHR 0x0A]
       @ join_space (map uid_mention uids)))"

text \<open>The voter count a click results in: \<open>len(self.voters)\<close> after the toggle of lines 141
  to 150, the local \<open>vote_count\<close>.\<close>

definition toggled_count :: "interaction \<Rightarrow> view \<Rightarrow> nat" where
  "toggled_count i s = fcard (voters (fst (snd (vote_button_begin i s))))"

subsection \<open>Concrete inputs\<close>

definition all_ok :: "task \<Rightarrow> outcome" where
  "all_ok t = Ok"

definition click_by :: "int \<Rightarrow> interaction" where
  "click_by uid =
     \<lparr>user = \<lparr>member_id = uid, mention = uid_mention uid\<rparr>, has_message = True\<rparr>"

definition fresh :: "int \<Rightarrow> view" where
  "fresh threshold =
     \<lparr>voters = {||}, vote_threshold = threshold, starter = None, label = ''Vote (0)''\<rparr>"

text \<open>An iteration that yields the ids in ascending order, as CPython's does for a set of
  small ids that were added and never removed.\<close>

definition sorted_iter :: set_iter where
  "sorted_iter = sorted_list_of_fset"

text \<open>The message cannot be deleted: \<open>interaction.message.delete()\<close> and
  \<open>interaction.response.defer()\<close> raise, every other call returns.\<close>

definition delete_fails :: "task \<Rightarrow> outcome" where
  "delete_fails t = (if t = AwaitDelete \<or> t = AwaitDefer then Raise else Ok)"

section \<open>One callback, in closed form\<close>

lemma run_done: "finished t \<Longrightarrow> run iter i io (t, s, es) = (t, s, es)"
  by (simp add: run.simps)

lemma run_step:
  "\<not> finished t \<Longrightarrow>
   run iter i io (t, s, es) =
     run iter i io
       (fst (resume iter i (io t) t s), fst (snd (resume iter i (io t) t s)),
        es @ snd (snd (resume iter i (io t) t s)))"
  by (subst run.simps) (simp add: case_prod_beta)

lemmas run_simps = run_done run_step finished_def

text \<open>The clicking user is in the set: lines 142 to 147.\<close>

lemma vote_button_present:
  assumes "member_id (user i) |\<in>| voters s"
  shows "vote_button iter i io s =
     (let c = fcard (voters s |-| {|member_id (user i)|});
          s' = s\<lparr>voters := voters s |-| {|member_id (user i)|}, label := vote_label c\<rparr>
      in if io (AwaitEditRemoved c) = Raise then (Raised, s', [Call (EditMessage (vote_label c))])
         else (if io AwaitFollowupRemoved = Raise then Raised else Returned, s',
               [Call (EditMessage (vote_label c)),
                Call (FollowupSend (removed_msg c (vote_threshold s)))]))"
  using assms
  by (cases "io (AwaitEditRemoved (fcard (voters s |-| {|member_id (user i)|})))";
      cases "io AwaitFollowupRemoved")
     (simp_all add: vote_button_def vote_button_begin_def Let_def run_simps)

text \<open>The clicking user is not in the set and the edit of line 154 raises.\<close>

lemma vote_button_absent_edit_fails:
  assumes "member_id (user i) |\<notin>| voters s"
    and "io (AwaitEditAdded (fcard (finsert (member_id (user i)) (voters s)))) = Raise"
  shows "vote_button iter i io s =
     (let c = fcard (finsert (member_id (user i)) (voters s));
          s' = s\<lparr>voters := finsert (member_id (user i)) (voters s), label := vote_label c\<rparr>
      in (Raised, s', [Call (EditMessage (vote_label c))]))"
  using assms
  by (simp add: vote_button_def vote_button_begin_def Let_def run_simps)

text \<open>The clicking user is not in the set and the count stays below the threshold:
  lines 149 to 156 and 206.\<close>

lemma vote_button_absent_below:
  assumes "member_id (user i) |\<notin>| voters s"
    and "int (fcard (finsert (member_id (user i)) (voters s))) < vote_threshold s"
  shows "vote_button iter i io s =
     (let c = fcard (finsert (member_id (user i)) (voters s));
          s' = s\<lparr>voters := finsert (member_id (user i)) (voters s), label := vote_label c\<rparr>
      in if io (AwaitEditAdded c) = Raise then (Raised, s', [Call (EditMessage (vote_label c))])
         else (if io AwaitFollowupCounted = Raise then Raised else Returned, s',
               [Call (EditMessage (vote_label c)),
                Call (FollowupSend (counted_msg (vote_threshold s - int c)))]))"
  using assms
  by (cases "io (AwaitEditAdded (fcard (finsert (member_id (user i)) (voters s))))";
      cases "io AwaitFollowupCounted")
     (simp_all add: vote_button_def vote_button_begin_def Let_def run_simps)

text \<open>The clicking user is not in the set, the edit returns and the count has reached the
  threshold: lines 149 to 204.\<close>

lemma vote_button_absent_cross:
  assumes "member_id (user i) |\<notin>| voters s"
    and "vote_threshold s \<le> int (fcard (finsert (member_id (user i)) (voters s)))"
    and "io (AwaitEditAdded (fcard (finsert (member_id (user i)) (voters s)))) = Ok"
  shows "vote_button iter i io s =
     (let c = fcard (finsert (member_id (user i)) (voters s));
          s' = s\<lparr>voters := finsert (member_id (user i)) (voters s), label := vote_label c\<rparr>;
          sent = (io AwaitChannelSend = Ok);
          replied = (sent \<and> io AwaitReply = Ok)
      in (if replied then Returned else Raised,
          if replied then s'\<lparr>voters := {||}, label := ''Vote (0)''\<rparr> else s',
          Call (EditMessage (vote_label c)) #
          (if has_message i then
             Call MessageDelete #
             (if io AwaitDelete = Ok then []
              else Call ResponseDefer #
                (if io AwaitDefer = Ok then
                   Call DeleteOriginalResponse #
                   (if io AwaitDeleteOriginal = Ok then [] else [log_delete_failed])
                 else [log_delete_failed]))
           else []) @
          announce i s' # (if sent then [Call (Reply (reply_msg iter s'))] else [])))"
  using assms
  by (cases "io AwaitDelete"; cases "io AwaitDefer"; cases "io AwaitDeleteOriginal";
      cases "io AwaitChannelSend"; cases "io AwaitReply"; cases "has_message i")
     (simp_all add: vote_button_def vote_button_begin_def Let_def run_simps)

lemma outcome_not_Ok [simp]: "r \<noteq> Ok \<longleftrightarrow> r = Raise"
  by (cases r) simp_all

lemma fcard_fminus_member: "x |\<in>| A \<Longrightarrow> Suc (fcard (A |-| {|x|})) = fcard A"
  by (rule fcard_Suc_fminus1)

text \<open>No click changes the threshold or the starter.\<close>

lemma vote_button_threshold: "vote_threshold (fst (snd (vote_button iter i io s))) = vote_threshold s"
proof (cases "member_id (user i) |\<in>| voters s")
  case True
  then show ?thesis by (simp add: vote_button_present Let_def)
next
  case absent: False
  let ?c = "fcard (finsert (member_id (user i)) (voters s))"
  show ?thesis
  proof (cases "io (AwaitEditAdded ?c)")
    case Raise
    with absent show ?thesis by (simp add: vote_button_absent_edit_fails Let_def)
  next
    case Ok
    show ?thesis
    proof (cases "vote_threshold s \<le> int ?c")
      case True
      with absent Ok show ?thesis by (simp add: vote_button_absent_cross Let_def)
    next
      case False
      with absent show ?thesis by (simp add: vote_button_absent_below Let_def)
    qed
  qed
qed

lemma vote_button_starter: "starter (fst (snd (vote_button iter i io s))) = starter s"
proof (cases "member_id (user i) |\<in>| voters s")
  case True
  then show ?thesis by (simp add: vote_button_present Let_def)
next
  case absent: False
  let ?c = "fcard (finsert (member_id (user i)) (voters s))"
  show ?thesis
  proof (cases "io (AwaitEditAdded ?c)")
    case Raise
    with absent show ?thesis by (simp add: vote_button_absent_edit_fails Let_def)
  next
    case Ok
    show ?thesis
    proof (cases "vote_threshold s \<le> int ?c")
      case True
      with absent Ok show ?thesis by (simp add: vote_button_absent_cross Let_def)
    next
      case False
      with absent show ?thesis by (simp add: vote_button_absent_below Let_def)
    qed
  qed
qed

lemma toggled_count_present:
  "member_id (user i) |\<in>| voters s \<Longrightarrow> toggled_count i s = fcard (voters s) - 1"
  by (simp add: toggled_count_def vote_button_begin_def Let_def fcard_fminus_fsingleton)

lemma toggled_count_absent:
  "member_id (user i) |\<notin>| voters s \<Longrightarrow> toggled_count i s = Suc (fcard (voters s))"
  by (simp add: toggled_count_def vote_button_begin_def Let_def fcard_finsert_disjoint)

lemma is_announce_announce [simp]: "is_announce (announce i s)"
  by (simp add: announce_def)

lemma is_announce_log [simp]: "\<not> is_announce log_delete_failed"
  by (simp add: log_delete_failed_def)

text \<open>A callback that does not send the announcement toggles the clicking user and
  nothing else.\<close>

lemma vote_button_quiet_voters:
  assumes "\<not> announced (vote_button iter i io s)"
  shows "voters (fst (snd (vote_button iter i io s))) =
     (if member_id (user i) |\<in>| voters s then voters s |-| {|member_id (user i)|}
      else finsert (member_id (user i)) (voters s))"
proof (cases "member_id (user i) |\<in>| voters s")
  case True
  then show ?thesis by (simp add: vote_button_present Let_def)
next
  case absent: False
  let ?c = "fcard (finsert (member_id (user i)) (voters s))"
  show ?thesis
  proof (cases "io (AwaitEditAdded ?c)")
    case Raise
    with absent show ?thesis by (simp add: vote_button_absent_edit_fails Let_def)
  next
    case Ok
    show ?thesis
    proof (cases "vote_threshold s \<le> int ?c")
      case True
      with absent Ok have "announced (vote_button iter i io s)"
        by (simp add: vote_button_absent_cross Let_def announced_def)
      with assms show ?thesis by simp
    next
      case False
      with absent show ?thesis by (simp add: vote_button_absent_below Let_def)
    qed
  qed
qed

text \<open>A callback that sent the announcement and returned leaves the view empty.\<close>

lemma vote_button_started_returned:
  assumes "announced (vote_button iter i io s)" and "fst (vote_button iter i io s) = Returned"
  shows "fst (snd (vote_button iter i io s)) = s\<lparr>voters := {||}, label := ''Vote (0)''\<rparr>"
proof (cases "member_id (user i) |\<in>| voters s")
  case True
  with assms(1) show ?thesis
    by (simp add: vote_button_present Let_def announced_def split: if_splits)
next
  case absent: False
  let ?c = "fcard (finsert (member_id (user i)) (voters s))"
  show ?thesis
  proof (cases "io (AwaitEditAdded ?c)")
    case Raise
    with absent assms(1) show ?thesis
      by (simp add: vote_button_absent_edit_fails Let_def announced_def)
  next
    case Ok
    show ?thesis
    proof (cases "vote_threshold s \<le> int ?c")
      case True
      with absent Ok assms(2) show ?thesis
        by (simp add: vote_button_absent_cross Let_def split: if_splits)
    next
      case False
      with absent assms(1) show ?thesis
        by (simp add: vote_button_absent_below Let_def announced_def split: if_splits)
    qed
  qed
qed

text \<open>A callback that sent the announcement and then raised leaves the clicking user
  added and nothing else changed.\<close>

lemma vote_button_started_voters:
  assumes "announced (vote_button iter i io s)" and "fst (vote_button iter i io s) \<noteq> Returned"
  shows "voters (fst (snd (vote_button iter i io s))) = finsert (member_id (user i)) (voters s)"
proof (cases "member_id (user i) |\<in>| voters s")
  case True
  with assms(1) show ?thesis
    by (simp add: vote_button_present Let_def announced_def split: if_splits)
next
  case absent: False
  let ?c = "fcard (finsert (member_id (user i)) (voters s))"
  show ?thesis
  proof (cases "io (AwaitEditAdded ?c)")
    case Raise
    with absent show ?thesis
      by (simp add: vote_button_absent_edit_fails Let_def)
  next
    case Ok
    show ?thesis
    proof (cases "vote_threshold s \<le> int ?c")
      case True
      with absent Ok assms(2) show ?thesis
        by (auto simp: vote_button_absent_cross Let_def split: if_splits)
    next
      case False
      with absent show ?thesis
        by (simp add: vote_button_absent_below Let_def)
    qed
  qed
qed

text \<open>What the segments after the first do to the view, and the View Voters callback.\<close>

lemma resume_Raise_view: "fst (snd (resume iter i Raise t s)) = s"
  by (cases t) simp_all

lemma resume_view:
  "fst (snd (resume iter i r t s)) =
     (if r = Ok \<and> t = AwaitReply then s\<lparr>voters := {||}, label := ''Vote (0)''\<rparr> else s)"
  by (cases t; cases r) (simp_all add: Let_def)

lemma view_voters_button_eq:
  "view_voters_button iter i io s =
     (if io AwaitSendMessage = Ok then Returned else Raised, s,
      [Call (SendMessage (if voters s = {||} then ''No one has voted yet!''
                          else current_voters_msg iter s))])"
  by (cases "io AwaitSendMessage")
     (simp_all add: view_voters_button_def view_voters_button_begin_def run_simps)

lemma counted_not_removed: "counted_msg r \<noteq> removed_msg n T"
  by (simp add: counted_msg_def removed_msg_def)

lemma mentioning_iter: "mentioning (iter (voters s)) = Call (Reply (reply_msg iter s))"
  by (simp add: mentioning_def reply_msg_def voter_mentions_def)

section \<open>Clicks one after another\<close>

lemma clicks_length: "length (clicks iter s cs) = length cs"
  by (induction cs arbitrary: s iter) auto

lemma clicks_nth:
  "k < length cs \<Longrightarrow>
   clicks iter s cs ! k =
     vote_button (iter k) (fst (cs ! k)) (snd (cs ! k)) (play iter s (take k cs))"
proof (induction cs arbitrary: s k iter)
  case Nil
  then show ?case by simp
next
  case (Cons c cs)
  obtain i io where c: "c = (i, io)" by (cases c)
  show ?case
  proof (cases k)
    case 0
    then show ?thesis by (simp add: c)
  next
    case (Suc n)
    with Cons.prems have "n < length cs" by simp
    from Cons.IH [OF this] show ?thesis by (simp add: c Suc)
  qed
qed

text \<open>With every call returning, a callback leaves fewer voters than the threshold when it
  found fewer, and announces exactly when the count it computed reached the threshold.\<close>

lemma collecting_step:
  assumes "int (fcard (voters s)) < vote_threshold s"
  shows "int (fcard (voters (fst (snd (vote_button iter i all_ok s))))) < vote_threshold s"
    and "announced (vote_button iter i all_ok s) \<longleftrightarrow> vote_threshold s \<le> int (toggled_count i s)"
    and "announced (vote_button iter i all_ok s) \<Longrightarrow>
           fst (vote_button iter i all_ok s) = Returned
           \<and> voters (fst (snd (vote_button iter i all_ok s))) = {||}"
proof -
  let ?r = "vote_button iter i all_ok s"
  have "int (fcard (voters (fst (snd ?r)))) < vote_threshold s
      \<and> (announced ?r \<longleftrightarrow> vote_threshold s \<le> int (toggled_count i s))
      \<and> (announced ?r \<longrightarrow> fst ?r = Returned \<and> voters (fst (snd ?r)) = {||})"
  proof (cases "member_id (user i) |\<in>| voters s")
    case True
    with assms show ?thesis
      by (auto simp: vote_button_present toggled_count_present Let_def all_ok_def announced_def
          fcard_fminus_fsingleton)
  next
    case absent: False
    show ?thesis
    proof (cases "vote_threshold s \<le> int (fcard (finsert (member_id (user i)) (voters s)))")
      case True
      with absent assms show ?thesis
        by (simp add: vote_button_absent_cross toggled_count_absent Let_def all_ok_def
            announced_def fcard_finsert_disjoint fcard_fempty)
    next
      case False
      with absent assms show ?thesis
        by (simp add: vote_button_absent_below toggled_count_absent Let_def all_ok_def
            announced_def fcard_finsert_disjoint)
    qed
  qed
  then show "int (fcard (voters (fst (snd ?r)))) < vote_threshold s"
    and "announced ?r \<longleftrightarrow> vote_threshold s \<le> int (toggled_count i s)"
    and "announced ?r \<Longrightarrow> fst ?r = Returned \<and> voters (fst (snd ?r)) = {||}"
    by simp_all
qed

lemma play_threshold: "vote_threshold (play iter s cs) = vote_threshold s"
  by (induction cs arbitrary: s iter) (auto simp: vote_button_threshold)

lemma play_collecting:
  "int (fcard (voters s)) < vote_threshold s \<Longrightarrow>
   int (fcard (voters (play iter s (map (\<lambda>i. (i, all_ok)) js)))) < vote_threshold s"
proof (induction js arbitrary: s iter)
  case Nil
  then show ?case by simp
next
  case (Cons j js)
  let ?s' = "fst (snd (vote_button (iter 0) j all_ok s))"
  from Cons.prems have "int (fcard (voters ?s')) < vote_threshold ?s'"
    by (simp add: collecting_step(1) vote_button_threshold)
  from Cons.IH [OF this] show ?case
    by (simp add: vote_button_threshold)
qed

text \<open>Users who are not in the set click one after another and the count stays below the
  threshold: what the callbacks emit.\<close>

lemma clicks_below_events:
  assumes "distinct (map (\<lambda>i. member_id (user i)) js)"
    and "\<forall>i \<in> set js. member_id (user i) |\<notin>| voters s"
    and "int (fcard (voters s) + length js) < vote_threshold s"
  shows "map (\<lambda>r. snd (snd r)) (clicks iter s (map (\<lambda>i. (i, all_ok)) js)) =
     map (\<lambda>k. [Call (EditMessage (vote_label (fcard (voters s) + k))),
                Call (FollowupSend (counted_msg (vote_threshold s - int (fcard (voters s) + k))))])
       [1..<Suc (length js)]"
  using assms
proof (induction js arbitrary: s iter)
  case Nil
  then show ?case by simp
next
  case (Cons j js)
  let ?u = "member_id (user j)"
  let ?s' = "s\<lparr>voters := finsert ?u (voters s), label := vote_label (Suc (fcard (voters s)))\<rparr>"
  from Cons.prems have absent: "?u |\<notin>| voters s"
    by simp
  then have c: "fcard (finsert ?u (voters s)) = Suc (fcard (voters s))"
    by (simp add: fcard_finsert_disjoint)
  from Cons.prems have below: "int (fcard (finsert ?u (voters s))) < vote_threshold s"
    by (simp add: c)
  have r: "vote_button (iter 0) j all_ok s =
      (Returned, ?s',
       [Call (EditMessage (vote_label (Suc (fcard (voters s))))),
        Call (FollowupSend (counted_msg (vote_threshold s - int (Suc (fcard (voters s))))))])"
    by (simp add: vote_button_absent_below [OF absent below] Let_def c all_ok_def)
  have d: "distinct (map (\<lambda>i. member_id (user i)) js)"
    using Cons.prems by simp
  have "\<forall>i \<in> set js. member_id (user i) \<noteq> ?u"
    using Cons.prems(1) by (auto simp: image_iff)
  with Cons.prems(2) have others: "\<forall>i \<in> set js. member_id (user i) |\<notin>| voters ?s'"
    by simp
  have "int (fcard (voters ?s') + length js) < vote_threshold ?s'"
    using Cons.prems(3) by (simp add: c)
  from Cons.IH [OF d others this]
  have rest: "map (\<lambda>r. snd (snd r))
       (clicks (\<lambda>k. iter (Suc k)) ?s' (map (\<lambda>i. (i, all_ok)) js)) =
     map (\<lambda>k. [Call (EditMessage (vote_label (fcard (voters s) + Suc k))),
                Call (FollowupSend (counted_msg (vote_threshold s - int (fcard (voters s) + Suc k))))])
       [1..<Suc (length js)]"
    by (simp add: c)
  have "[1..<Suc (length (j # js))] = 1 # map Suc [1..<Suc (length js)]"
    by (simp add: upt_conv_Cons map_Suc_upt del: upt_Suc)
  then show ?case
    by (simp add: r rest comp_def ac_simps del: upt_Suc)
qed

section \<open>Unfolding the model at concrete inputs\<close>

lemmas eval_defs = vote_button_def vote_button_begin_def Let_def run_simps all_ok_def click_by_def
  fresh_def fcard_finsert_if fcard_fempty announced_def announce_def

text \<open>A set iteration to run the model with: ascending ids.\<close>

lemma sorted_iter_empty: "sorted_iter {||} = []"
  by (simp add: sorted_iter_def sorted_list_of_fset.rep_eq)

lemma sorted_iter_finsert:
  "x |\<notin>| S \<Longrightarrow> sorted_iter (finsert x S) = insort x (sorted_iter S)"
  by (simp add: sorted_iter_def sorted_list_of_fset.rep_eq sorted_list_of_set_insert)

lemma iter_ok_sorted_iter: "iter_ok sorted_iter"
proof -
  have "distinct (sorted_list_of_fset S)" for S :: "int fset"
    by (simp add: sorted_list_of_fset.rep_eq)
  then show ?thesis
    by (simp add: iter_ok_def sorted_iter_def)
qed

lemmas text_defs = vote_label_def counted_msg_def removed_msg_def str_int_def str_nat.simps
  digit_def log_delete_failed_def starter_mention_def uid_mention_def reply_msg_def
  voter_mentions_def sorted_iter_empty sorted_iter_finsert

section \<open>Removing a vote\<close>

text \<open>
  Claim C6. A click by a user who is in the voter set never starts the session, whatever
  the threshold and however the Discord calls end: the callback never sends the
  announcement, the voter set loses exactly that user, so the count goes down by one, the
  button is relabelled with the new count, and once the edit has returned the user is
  told "Vote removed!" with the new count.
\<close>

theorem remove_toggle_never_starts:
  assumes "member_id (user i) |\<in>| voters s"
  shows "(let r = vote_button iter i io s; c = fcard (voters s) - 1 in
          \<not> announced r
          \<and> voters (fst (snd r)) = voters s |-| {|member_id (user i)|}
          \<and> fcard (voters (fst (snd r))) = c \<and> c < fcard (voters s)
          \<and> label (fst (snd r)) = vote_label c
          \<and> snd (snd r) =
              Call (EditMessage (vote_label c)) #
              (if io (AwaitEditRemoved c) = Ok
               then [Call (FollowupSend (removed_msg c (vote_threshold s)))] else []))"
proof -
  from assms have c: "Suc (fcard (voters s |-| {|member_id (user i)|})) = fcard (voters s)"
    by (rule fcard_fminus_member)
  then have "fcard (voters s |-| {|member_id (user i)|}) = fcard (voters s) - 1"
    by simp
  moreover from c have "0 < fcard (voters s)"
    by simp
  ultimately show ?thesis
    by (cases "io (AwaitEditRemoved (fcard (voters s) - 1))")
       (simp_all add: vote_button_present [OF assms] Let_def announced_def)
qed

theorem remove_toggle_never_starts_witness:
  "(1::int) |\<in>| {|1, 2|}
   \<and> \<not> announced (vote_button sorted_iter (click_by 1) all_ok ((fresh 1)\<lparr>voters := {|1, 2|}\<rparr>))
   \<and> voters (fst (snd (vote_button sorted_iter (click_by 1) all_ok ((fresh 1)\<lparr>voters := {|1, 2|}\<rparr>))))
       = {|2|}
   \<and> snd (snd (vote_button sorted_iter (click_by 1) all_ok ((fresh 1)\<lparr>voters := {|1, 2|}\<rparr>)))
       = [Call (EditMessage ''Vote (1)''), Call (FollowupSend ''Vote removed! (1/1)'')]"
  using remove_toggle_never_starts
    [of "click_by 1" "(fresh 1)\<lparr>voters := {|1, 2|}\<rparr>" sorted_iter all_ok]
  by (simp add: click_by_def fresh_def all_ok_def Let_def fcard_finsert_if fcard_fempty
      vote_label_def removed_msg_def str_int_def str_nat.simps digit_def)

section \<open>When the session starts\<close>

text \<open>
  Claim C1, as the code has it. A view created with a threshold of at least 1 is clicked any
  number of times, each callback running to its end with every Discord call returning. A
  click sends the announcement exactly when the voter count it results in has reached the
  threshold; so the first announcement comes from the first such click. That callback
  returns with the voter set emptied, and the view goes on counting.
\<close>

theorem started_iff_count_reaches_threshold:
  assumes "1 \<le> T" and "init_view T st = Inr s0" and "k < length js"
  shows "(let cs = map (\<lambda>i. (i, all_ok)) js;
              r = clicks iter s0 cs ! k;
              s_k = play iter s0 (take k cs)
          in (announced r \<longleftrightarrow> T \<le> int (toggled_count (js ! k) s_k))
             \<and> (announced r \<longrightarrow> fst r = Returned \<and> voters (fst (snd r)) = {||}))"
proof -
  let ?cs = "map (\<lambda>i. (i, all_ok)) js"
  let ?sk = "play iter s0 (take k ?cs)"
  from assms(2) have s0: "voters s0 = {||}" "vote_threshold s0 = T"
    by (auto simp: init_view_def)
  with assms(1) have "int (fcard (voters s0)) < vote_threshold s0"
    by (simp add: fcard_fempty)
  then have "int (fcard (voters (play iter s0 (map (\<lambda>i. (i, all_ok)) (take k js))))) < vote_threshold s0"
    by (rule play_collecting)
  then have inv: "int (fcard (voters ?sk)) < vote_threshold ?sk"
    by (simp add: take_map play_threshold)
  have T: "vote_threshold ?sk = T"
    by (simp add: play_threshold s0)
  from assms(3) have r: "clicks iter s0 ?cs ! k = vote_button (iter k) (js ! k) all_ok ?sk"
    by (simp add: clicks_nth)
  from collecting_step(2) [OF inv] collecting_step(3) [OF inv] show ?thesis
    by (simp add: r T Let_def)
qed

theorem started_iff_count_reaches_threshold_witness:
  "(1::int) \<le> 2 \<and> init_view 2 None = Inr (fresh 2) \<and> (1::nat) < length [click_by 1, click_by 2]
   \<and> announced (clicks (\<lambda>k. sorted_iter) (fresh 2) [(click_by 1, all_ok), (click_by 2, all_ok)] ! 1)
   \<and> (2::int) \<le> int (toggled_count (click_by 2)
         (play (\<lambda>k. sorted_iter) (fresh 2) [(click_by 1, all_ok)]))
   \<and> voters (fst (snd (clicks (\<lambda>k. sorted_iter) (fresh 2) [(click_by 1, all_ok), (click_by 2, all_ok)] ! 1)))
       = {||}"
  using started_iff_count_reaches_threshold
    [of 2 None "fresh 2" 1 "[click_by 1, click_by 2]" "\<lambda>k. sorted_iter"]
  by (simp add: init_view_def fresh_def Let_def toggled_count_def eval_defs)

text \<open>
  Claim C1 as stated fails: the emptied view counts again, and the announcement is sent
  again when the count reaches the threshold anew. With threshold 2 and four users clicking
  once each, the second and the fourth click both start a session.
\<close>

theorem started_again_counterexample:
  "map announced (clicks (\<lambda>k. sorted_iter) (fresh 2) (map (\<lambda>u. (click_by u, all_ok)) [1, 2, 3, 4]))
     = [False, True, False, True]"
  by (simp add: eval_defs)

section \<open>Adding a vote below the threshold\<close>

text \<open>
  Claim C8. A click by a user who is not in the voter set, with the resulting count below
  the threshold, never starts the session: the user joins the set, the count is the new
  size of the set, the button is relabelled "Vote (count)", and once the edit has returned
  the user is told "Vote counted!" with \<open>remaining = threshold - count\<close>, a text no
  "Vote removed!" acknowledgement equals. On a view created with threshold 8, seven
  different users clicking once each, every call returning, get the counts 1 to 7 and the
  remaining votes 7 down to 1.
\<close>

theorem add_toggle_below_threshold:
  "(member_id (user i) |\<notin>| voters s \<and> int (fcard (voters s)) + 1 < vote_threshold s \<longrightarrow>
      (let r = vote_button iter i io s; c = fcard (voters s) + 1 in
         \<not> announced r
         \<and> voters (fst (snd r)) = finsert (member_id (user i)) (voters s)
         \<and> fcard (voters (fst (snd r))) = c
         \<and> label (fst (snd r)) = vote_label c
         \<and> snd (snd r) =
             Call (EditMessage (vote_label c)) #
             (if io (AwaitEditAdded c) = Ok
              then [Call (FollowupSend (counted_msg (vote_threshold s - int c)))] else [])
         \<and> (\<forall>n. counted_msg (vote_threshold s - int c) \<noteq> removed_msg n (vote_threshold s))))
   \<and> (distinct (map (\<lambda>i. member_id (user i)) js) \<and> length js = 7 \<and> init_view 8 st = Inr s0 \<longrightarrow>
        map (\<lambda>r. snd (snd r)) (clicks iters s0 (map (\<lambda>i. (i, all_ok)) js)) =
          map (\<lambda>k. [Call (EditMessage (vote_label k)),
                     Call (FollowupSend (counted_msg (8 - int k)))]) [1..<8])"
proof (intro conjI impI)
  assume a: "member_id (user i) |\<notin>| voters s \<and> int (fcard (voters s)) + 1 < vote_threshold s"
  then have c: "fcard (finsert (member_id (user i)) (voters s)) = fcard (voters s) + 1"
    by (simp add: fcard_finsert_disjoint)
  with a have below: "int (fcard (finsert (member_id (user i)) (voters s))) < vote_threshold s"
    by simp
  from a have absent: "member_id (user i) |\<notin>| voters s"
    by simp
  show "let r = vote_button iter i io s; c = fcard (voters s) + 1 in
         \<not> announced r
         \<and> voters (fst (snd r)) = finsert (member_id (user i)) (voters s)
         \<and> fcard (voters (fst (snd r))) = c
         \<and> label (fst (snd r)) = vote_label c
         \<and> snd (snd r) =
             Call (EditMessage (vote_label c)) #
             (if io (AwaitEditAdded c) = Ok
              then [Call (FollowupSend (counted_msg (vote_threshold s - int c)))] else [])
         \<and> (\<forall>n. counted_msg (vote_threshold s - int c) \<noteq> removed_msg n (vote_threshold s))"
    using c
    by (cases "io (AwaitEditAdded (Suc (fcard (voters s))))")
       (simp_all add: vote_button_absent_below [OF absent below] Let_def announced_def
          counted_not_removed)
next
  assume a: "distinct (map (\<lambda>i. member_id (user i)) js) \<and> length js = 7 \<and> init_view 8 st = Inr s0"
  then have s0: "voters s0 = {||}" "vote_threshold s0 = 8"
    by (auto simp: init_view_def)
  have "map (\<lambda>r. snd (snd r)) (clicks iters s0 (map (\<lambda>i. (i, all_ok)) js)) =
     map (\<lambda>k. [Call (EditMessage (vote_label (fcard (voters s0) + k))),
                Call (FollowupSend (counted_msg (vote_threshold s0 - int (fcard (voters s0) + k))))])
       [1..<Suc (length js)]"
    using a by (intro clicks_below_events) (simp_all add: s0 fcard_fempty)
  with a show "map (\<lambda>r. snd (snd r)) (clicks iters s0 (map (\<lambda>i. (i, all_ok)) js)) =
          map (\<lambda>k. [Call (EditMessage (vote_label k)),
                     Call (FollowupSend (counted_msg (8 - int k)))]) [1..<8]"
    by (simp add: s0 fcard_fempty del: upt_Suc)
qed

theorem add_toggle_below_threshold_witness:
  "member_id (user (click_by 1)) |\<notin>| voters (fresh 8)
   \<and> int (fcard (voters (fresh 8))) + 1 < vote_threshold (fresh 8)
   \<and> voters (fst (snd (vote_button sorted_iter (click_by 1) all_ok (fresh 8)))) = {|1|}
   \<and> label (fst (snd (vote_button sorted_iter (click_by 1) all_ok (fresh 8)))) = ''Vote (1)''
   \<and> distinct (map (\<lambda>i. member_id (user i)) (map click_by [1, 2, 3, 4, 5, 6, 7]))
   \<and> length (map click_by [1, 2, 3, 4, 5, 6, 7]) = 7
   \<and> init_view 8 None = Inr (fresh 8)
   \<and> map (\<lambda>r. snd (snd r))
         (clicks (\<lambda>k. sorted_iter) (fresh 8) (map (\<lambda>u. (click_by u, all_ok)) [1, 2, 3, 4, 5, 6, 7])) =
      [[Call (EditMessage ''Vote (1)''),
        Call (FollowupSend ''Vote counted! **7** more votes needed to start the session.'')],
       [Call (EditMessage ''Vote (2)''),
        Call (FollowupSend ''Vote counted! **6** more votes needed to start the session.'')],
       [Call (EditMessage ''Vote (3)''),
        Call (FollowupSend ''Vote counted! **5** more votes needed to start the session.'')],
       [Call (EditMessage ''Vote (4)''),
        Call (FollowupSend ''Vote counted! **4** more votes needed to start the session.'')],
       [Call (EditMessage ''Vote (5)''),
        Call (FollowupSend ''Vote counted! **3** more votes needed to start the session.'')],
       [Call (EditMessage ''Vote (6)''),
        Call (FollowupSend ''Vote counted! **2** more votes needed to start the session.'')],
       [Call (EditMessage ''Vote (7)''),
        Call (FollowupSend ''Vote counted! **1** more votes needed to start the session.'')]]"
proof -
  have upt: "[1..<8] = [1, 2, 3, 4, 5, 6, 7::nat]"
    by code_simp
  show ?thesis
    using add_toggle_below_threshold
      [of "click_by 1" "fresh 8" sorted_iter all_ok "map click_by [1, 2, 3, 4, 5, 6, 7]" None
        "fresh 8" "\<lambda>k. sorted_iter", unfolded upt]
    by (simp add: click_by_def fresh_def init_view_def all_ok_def Let_def fcard_fempty
        vote_label_def counted_msg_def str_int_def str_nat.simps digit_def)
qed

section \<open>Toggling twice\<close>

text \<open>
  Claim C7. While the session is collecting, that is when neither of the two callbacks
  starts the session, two clicks in a row by the same user leave the voter set, and so the
  count, as they found it, however the Discord calls end.
\<close>

theorem toggle_twice_restores_voters:
  assumes "member_id (user j) = member_id (user i)"
    and "\<not> announced (vote_button iter i io s)"
    and "\<not> announced (vote_button iter j io' (fst (snd (vote_button iter i io s))))"
  shows "voters (fst (snd (vote_button iter j io' (fst (snd (vote_button iter i io s)))))) = voters s
    \<and> fcard (voters (fst (snd (vote_button iter j io' (fst (snd (vote_button iter i io s))))))) =
        fcard (voters s)"
proof -
  let ?u = "member_id (user i)"
  let ?s1 = "fst (snd (vote_button iter i io s))"
  have first: "voters ?s1 = (if ?u |\<in>| voters s then voters s |-| {|?u|} else finsert ?u (voters s))"
    using assms(2) by (rule vote_button_quiet_voters)
  have second: "voters (fst (snd (vote_button iter j io' ?s1))) =
      (if ?u |\<in>| voters ?s1 then voters ?s1 |-| {|?u|} else finsert ?u (voters ?s1))"
    using vote_button_quiet_voters [OF assms(3)] by (simp add: assms(1))
  have "voters (fst (snd (vote_button iter j io' ?s1))) = voters s"
  proof (cases "?u |\<in>| voters s")
    case True
    then show ?thesis
      by (simp add: first second finsert_absorb)
  next
    case False
    then show ?thesis
      by (simp add: first second)
  qed
  then show ?thesis by simp
qed

theorem toggle_twice_restores_voters_witness:
  "member_id (user (click_by 3)) = member_id (user (click_by 3))
   \<and> \<not> announced (vote_button sorted_iter (click_by 3) all_ok ((fresh 8)\<lparr>voters := {|1, 2|}\<rparr>))
   \<and> \<not> announced (vote_button sorted_iter (click_by 3) all_ok
         (fst (snd (vote_button sorted_iter (click_by 3) all_ok ((fresh 8)\<lparr>voters := {|1, 2|}\<rparr>)))))
   \<and> voters (fst (snd (vote_button sorted_iter (click_by 3) all_ok ((fresh 8)\<lparr>voters := {|1, 2|}\<rparr>))))
       = {|3, 1, 2|}
   \<and> voters (fst (snd (vote_button sorted_iter (click_by 3) all_ok
         (fst (snd (vote_button sorted_iter (click_by 3) all_ok ((fresh 8)\<lparr>voters := {|1, 2|}\<rparr>)))))))
       = {|1, 2|}"
  using toggle_twice_restores_voters
    [of "click_by 3" "click_by 3" sorted_iter all_ok "(fresh 8)\<lparr>voters := {|1, 2|}\<rparr>" all_ok]
  by (simp add: eval_defs)

section \<open>Clicks after the session has started\<close>

text \<open>
  Claim C2, as the code has it. The callback that started the session and returned leaves
  the view with an empty voter set and the label "Vote (0)"; nothing records that the
  session has started and no click is rejected. With a threshold of at least 2, the next
  click, by any user, is an ordinary first vote: that user becomes the only voter, the
  button reads "Vote (1)" and, once the edit has returned, the user is told that
  \<open>threshold - 1\<close> more votes are needed.
\<close>

theorem toggle_after_start_counts_afresh:
  assumes "announced (vote_button iter i io s)" and "fst (vote_button iter i io s) = Returned"
    and "2 \<le> vote_threshold s"
  shows "(let s' = fst (snd (vote_button iter i io s)); r = vote_button iter j io' s' in
          s' = s\<lparr>voters := {||}, label := ''Vote (0)''\<rparr>
          \<and> \<not> announced r
          \<and> fst (snd r) = s\<lparr>voters := {|member_id (user j)|}, label := vote_label 1\<rparr>
          \<and> snd (snd r) =
              Call (EditMessage (vote_label 1)) #
              (if io' (AwaitEditAdded 1) = Ok
               then [Call (FollowupSend (counted_msg (vote_threshold s - 1)))] else []))"
proof -
  let ?s' = "s\<lparr>voters := {||}, label := ''Vote (0)''\<rparr>"
  have s': "fst (snd (vote_button iter i io s)) = ?s'"
    using assms(1,2) by (rule vote_button_started_returned)
  have absent: "member_id (user j) |\<notin>| voters ?s'"
    by simp
  have below: "int (fcard (finsert (member_id (user j)) (voters ?s'))) < vote_threshold ?s'"
    using assms(3) by (simp add: fcard_finsert_if fcard_fempty)
  show ?thesis
    by (cases "io' (AwaitEditAdded 1)")
      (simp_all add: s' vote_button_absent_below [OF absent below] Let_def announced_def
        fcard_finsert_if fcard_fempty)
qed

theorem toggle_after_start_counts_afresh_witness:
  "announced (vote_button sorted_iter (click_by 2) all_ok ((fresh 2)\<lparr>voters := {|1|}\<rparr>))
   \<and> fst (vote_button sorted_iter (click_by 2) all_ok ((fresh 2)\<lparr>voters := {|1|}\<rparr>)) = Returned
   \<and> (2::int) \<le> vote_threshold ((fresh 2)\<lparr>voters := {|1|}\<rparr>)
   \<and> vote_button sorted_iter (click_by 9) all_ok
        (fst (snd (vote_button sorted_iter (click_by 2) all_ok ((fresh 2)\<lparr>voters := {|1|}\<rparr>)))) =
       (Returned, \<lparr>voters = {|9|}, vote_threshold = 2, starter = None, label = ''Vote (1)''\<rparr>,
        [Call (EditMessage ''Vote (1)''),
         Call (FollowupSend ''Vote counted! **1** more votes needed to start the session.'')])"
  using toggle_after_start_counts_afresh
    [of sorted_iter "click_by 2" all_ok "(fresh 2)\<lparr>voters := {|1|}\<rparr>" "click_by 9" all_ok]
  by (simp add: eval_defs vote_label_def counted_msg_def str_int_def str_nat.simps digit_def)

text \<open>
  Claim C2 as stated fails. Threshold 8, users 1 to 8 click once each and the eighth click
  starts the session. A click by user 9 on the same view is not rejected: it changes the
  view (user 9 is now a voter, the label reads "Vote (1)") and is answered as a counted
  vote.
\<close>

theorem click_after_start_counterexample:
  "map announced
     (clicks (\<lambda>k. sorted_iter) (fresh 8) (map (\<lambda>u. (click_by u, all_ok)) [1, 2, 3, 4, 5, 6, 7, 8])) =
     [False, False, False, False, False, False, False, True]
   \<and> play (\<lambda>k. sorted_iter) (fresh 8) (map (\<lambda>u. (click_by u, all_ok)) [1, 2, 3, 4, 5, 6, 7, 8]) = fresh 8
   \<and> vote_button sorted_iter (click_by 9) all_ok
       (play (\<lambda>k. sorted_iter) (fresh 8) (map (\<lambda>u. (click_by u, all_ok)) [1, 2, 3, 4, 5, 6, 7, 8])) =
      (Returned, \<lparr>voters = {|9|}, vote_threshold = 8, starter = None, label = ''Vote (1)''\<rparr>,
       [Call (EditMessage ''Vote (1)''),
        Call (FollowupSend ''Vote counted! **7** more votes needed to start the session.'')])"
  by (simp add: eval_defs vote_label_def counted_msg_def str_int_def str_nat.simps digit_def)

section \<open>Deleting the vote prompt\<close>

text \<open>
  Claim C9, as the code has it. A user who is not in the voter set clicks and the count
  reaches the threshold. When \<open>edit_message\<close> raises, the exception leaves the callback
  and nothing more is done. When it returns, the session start flow deletes the vote
  prompt on a best-effort basis: \<open>message.delete()\<close> is tried when the interaction has a
  message; when it raises, \<open>response.defer()\<close> and then \<open>delete_original_response()\<close> are
  tried; when one of these raises too, the failure is logged. Whatever the three calls do,
  the callback goes on to the announcement: no exception of the deletion leaves the
  callback. An exception of \<open>channel.send\<close> or of \<open>reply\<close> does: the callback returns
  exactly when both return, and ends with an exception exactly when one of them raises.
  The view the callback leaves does not depend on how the deletion went; the added vote is
  never taken back, though the voter set is emptied only when the callback returns; and no
  segment that is resumed with an exception, of whichever call, changes the view.
\<close>

theorem deletion_is_best_effort:
  assumes "member_id (user i) |\<notin>| voters s"
    and "vote_threshold s \<le> int (fcard (finsert (member_id (user i)) (voters s)))"
  shows "(let c = fcard (finsert (member_id (user i)) (voters s));
              s' = s\<lparr>voters := finsert (member_id (user i)) (voters s), label := vote_label c\<rparr>;
              r = vote_button iter i io s
          in (if io (AwaitEditAdded c) = Raise
              then r = (Raised, s', [Call (EditMessage (vote_label c))])
              else
                snd (snd r) =
                  Call (EditMessage (vote_label c)) #
                  (if has_message i then
                     Call MessageDelete #
                     (if io AwaitDelete = Ok then []
                      else Call ResponseDefer #
                        (if io AwaitDefer = Ok then
                           Call DeleteOriginalResponse #
                           (if io AwaitDeleteOriginal = Ok then [] else [log_delete_failed])
                         else [log_delete_failed]))
                   else []) @
                  announce i s' #
                  (if io AwaitChannelSend = Ok then [Call (Reply (reply_msg iter s'))] else [])
                \<and> (fst r = Returned \<longleftrightarrow> io AwaitChannelSend = Ok \<and> io AwaitReply = Ok)
                \<and> (fst r = Raised \<longleftrightarrow> io AwaitChannelSend = Raise \<or> io AwaitReply = Raise)
                \<and> fst (snd r) =
                    (if fst r = Returned then s'\<lparr>voters := {||}, label := ''Vote (0)''\<rparr>
                     else s'))
             \<and> (\<forall>t v. fst (snd (resume iter i Raise t v)) = v))"
proof (cases "io (AwaitEditAdded (fcard (finsert (member_id (user i)) (voters s))))")
  case Raise
  then show ?thesis
    by (simp add: vote_button_absent_edit_fails [of i s io, OF assms(1)] Let_def
        resume_Raise_view)
next
  case Ok
  have "io AwaitChannelSend = Raise \<or> io AwaitReply = Raise \<longleftrightarrow>
      \<not> (io AwaitChannelSend = Ok \<and> io AwaitReply = Ok)"
    by (cases "io AwaitChannelSend"; cases "io AwaitReply") simp_all
  then show ?thesis
    by (simp add: Ok vote_button_absent_cross [of i s io, OF assms Ok] Let_def
        resume_Raise_view)
qed

theorem deletion_is_best_effort_witness:
  "member_id (user (click_by 1)) |\<notin>| voters (fresh 1)
   \<and> vote_threshold (fresh 1) \<le> int (fcard (finsert (member_id (user (click_by 1))) (voters (fresh 1))))
   \<and> delete_fails (AwaitEditAdded (fcard (finsert (member_id (user (click_by 1))) (voters (fresh 1))))) = Ok
   \<and> vote_button sorted_iter (click_by 1) delete_fails (fresh 1) =
      (Returned, fresh 1,
       [Call (EditMessage ''Vote (1)''), Call MessageDelete, Call ResponseDefer,
        LogException ''Failed to delete original vote message'', Call (ChannelSend ''<@1>''),
        Call (Reply (''The following voters must join or will be moderated!''
                       @ [CHR 0x0A, CHR 0x0A] @ ''<@1>''))])"
  using deletion_is_best_effort [of "click_by 1" "fresh 1" sorted_iter delete_fails]
  by (simp add: click_by_def fresh_def delete_fails_def Let_def fcard_finsert_if fcard_fempty
      announce_def text_defs prod_eq_iff)

text \<open>
  Claim C9 as stated fails: an exception does leave the handler. Threshold 1, user 1
  clicks, the prompt is deleted and \<open>channel.send\<close> raises. Nothing catches the exception:
  the callback ends with it, no reply is sent and the voter set is not emptied.
\<close>

theorem exception_leaves_handler_counterexample:
  "vote_button sorted_iter (click_by 1) (\<lambda>t. if t = AwaitChannelSend then Raise else Ok) (fresh 1) =
     (Raised, \<lparr>voters = {|1|}, vote_threshold = 1, starter = None, label = ''Vote (1)''\<rparr>,
      [Call (EditMessage ''Vote (1)''), Call MessageDelete, Call (ChannelSend ''<@1>'')])"
  by (simp add: vote_button_def vote_button_begin_def Let_def run_simps click_by_def fresh_def
      fcard_finsert_if fcard_fempty announce_def starter_mention_def uid_mention_def
      vote_label_def str_int_def str_nat.simps digit_def)

section \<open>What a click leaves alone\<close>

text \<open>
  Claim C10, as the code has it. A click by user \<open>u\<close> never changes the threshold or the
  recorded starter, and neither does View Voters, which leaves the whole view as it is. The
  toggle itself (the first segment, lines 141 to 151) changes the membership of \<open>u\<close> only.
  The callback as a whole leaves every other user's membership alone unless it started the
  session and returned: then it has emptied the voter set, other users included.
\<close>

theorem toggle_frame:
  assumes "v \<noteq> member_id (user i)"
  shows "(let r = vote_button iter i io s in
          vote_threshold (fst (snd r)) = vote_threshold s
          \<and> starter (fst (snd r)) = starter s
          \<and> (v |\<in>| voters (fst (snd (vote_button_begin i s))) \<longleftrightarrow> v |\<in>| voters s)
          \<and> (if announced r \<and> fst r = Returned then voters (fst (snd r)) = {||}
              else (v |\<in>| voters (fst (snd r)) \<longleftrightarrow> v |\<in>| voters s))
          \<and> fst (snd (view_voters_button iter i io' s)) = s)"
proof -
  let ?r = "vote_button iter i io s"
  have first: "v |\<in>| voters (fst (snd (vote_button_begin i s))) \<longleftrightarrow> v |\<in>| voters s"
    using assms by (simp add: vote_button_begin_def Let_def)
  have "if announced ?r \<and> fst ?r = Returned then voters (fst (snd ?r)) = {||}
      else (v |\<in>| voters (fst (snd ?r)) \<longleftrightarrow> v |\<in>| voters s)"
  proof (cases "announced ?r")
    case True
    then show ?thesis
      using assms vote_button_started_returned [of iter i io s]
        vote_button_started_voters [of iter i io s]
      by (cases "fst ?r = Returned") simp_all
  next
    case False
    then show ?thesis
      using assms by (simp add: vote_button_quiet_voters)
  qed
  then show ?thesis
    by (simp add: Let_def vote_button_threshold vote_button_starter first view_voters_button_eq)
qed

theorem toggle_frame_witness:
  "(1::int) \<noteq> member_id (user (click_by 2))
   \<and> vote_threshold (fst (snd (vote_button sorted_iter (click_by 2) all_ok ((fresh 8)\<lparr>voters := {|1|}\<rparr>)))) = 8
   \<and> starter (fst (snd (vote_button sorted_iter (click_by 2) all_ok ((fresh 8)\<lparr>voters := {|1|}\<rparr>)))) = None
   \<and> voters (fst (snd (vote_button sorted_iter (click_by 2) all_ok ((fresh 8)\<lparr>voters := {|1|}\<rparr>)))) = {|2, 1|}
   \<and> 1 |\<in>| voters (fst (snd (vote_button sorted_iter (click_by 2) all_ok ((fresh 8)\<lparr>voters := {|1|}\<rparr>))))
   \<and> fst (snd (view_voters_button sorted_iter (click_by 2) all_ok ((fresh 8)\<lparr>voters := {|1|}\<rparr>)))
        = (fresh 8)\<lparr>voters := {|1|}\<rparr>"
  using toggle_frame [of 1 "click_by 2" sorted_iter all_ok "(fresh 8)\<lparr>voters := {|1|}\<rparr>" all_ok]
  by (simp add: eval_defs)

text \<open>
  Claim C10 as stated fails for the click that starts the session. Threshold 2, user 1 has
  voted, user 2 clicks: the session starts and user 1 is a voter no more.
\<close>

theorem toggle_frame_counterexample:
  "(1::int) \<noteq> member_id (user (click_by 2))
   \<and> 1 |\<in>| voters ((fresh 2)\<lparr>voters := {|1|}\<rparr>)
   \<and> 1 |\<notin>| voters (fst (snd (vote_button sorted_iter (click_by 2) all_ok ((fresh 2)\<lparr>voters := {|1|}\<rparr>))))"
  by (simp add: eval_defs)

section \<open>Who is mentioned\<close>

text \<open>
  Claim C3, as the code has it. The voters are kept in a \<open>set\<close>, which records no order of
  joining. When a callback starts the session, runs with no other callback in between and
  its \<open>channel.send\<close> returns, the reply mentions the members of the voter set, the
  clicking user included, each one once, in the order the iteration over the set yields.
  Nothing in the code makes that the order of joining.
\<close>

theorem final_voters_enumerate_the_set:
  assumes "iter_ok iter"
    and "member_id (user i) |\<notin>| voters s"
    and "vote_threshold s \<le> int (fcard (finsert (member_id (user i)) (voters s)))"
    and "io (AwaitEditAdded (fcard (finsert (member_id (user i)) (voters s)))) = Ok"
    and "io AwaitChannelSend = Ok"
  shows "(let V = finsert (member_id (user i)) (voters s) in
          mentioning (iter V) \<in> set (snd (snd (vote_button iter i io s)))
          \<and> fset_of_list (iter V) = V \<and> distinct (iter V) \<and> length (iter V) = fcard V)"
proof -
  let ?V = "finsert (member_id (user i)) (voters s)"
  let ?s' = "s\<lparr>voters := ?V, label := vote_label (fcard ?V)\<rparr>"
  have "Call (Reply (reply_msg iter ?s')) \<in> set (snd (snd (vote_button iter i io s)))"
    using assms(5) by (simp add: vote_button_absent_cross [of i s io, OF assms(2-4)] Let_def)
  moreover have "mentioning (iter ?V) = Call (Reply (reply_msg iter ?s'))"
    using mentioning_iter [of iter ?s'] by simp
  moreover from assms(1) have ok: "fset_of_list (iter ?V) = ?V" "distinct (iter ?V)"
    by (simp_all add: iter_ok_def)
  moreover have "length (iter ?V) = fcard ?V"
  proof -
    from ok(1) have "fset ?V = set (iter ?V)"
      by (metis fset_of_list.rep_eq)
    then have "fcard ?V = card (set (iter ?V))"
      by (simp add: fcard.rep_eq)
    with ok(2) show ?thesis
      by (simp add: distinct_card)
  qed
  ultimately show ?thesis
    by (simp add: Let_def)
qed

theorem final_voters_enumerate_the_set_witness:
  "iter_ok sorted_iter
   \<and> member_id (user (click_by 1)) |\<notin>| voters ((fresh 2)\<lparr>voters := {|2|}\<rparr>)
   \<and> vote_threshold ((fresh 2)\<lparr>voters := {|2|}\<rparr>)
        \<le> int (fcard (finsert (member_id (user (click_by 1))) (voters ((fresh 2)\<lparr>voters := {|2|}\<rparr>))))
   \<and> all_ok (AwaitEditAdded 2) = Ok \<and> all_ok AwaitChannelSend = Ok
   \<and> mentioning [1, 2]
        \<in> set (snd (snd (vote_button sorted_iter (click_by 1) all_ok ((fresh 2)\<lparr>voters := {|2|}\<rparr>))))
   \<and> sorted_iter {|1, 2|} = [1, 2]"
  using final_voters_enumerate_the_set
    [of sorted_iter "click_by 1" "(fresh 2)\<lparr>voters := {|2|}\<rparr>" all_ok]
  by (simp add: iter_ok_sorted_iter click_by_def fresh_def all_ok_def Let_def fcard_finsert_if
      fcard_fempty sorted_iter_empty sorted_iter_finsert)

text \<open>
  Claim C3 as stated fails. Threshold 8; the users with the ids 8, 7, ..., 1 click once
  each, in this order. For these ids the iteration over the set yields 1, 2, ..., 8
  (ascending, as in CPython): the reply mentions the voters in that order, which is not the
  order in which they joined.
\<close>

theorem insertion_order_counterexample:
  "iter_ok sorted_iter
   \<and> mentioning [1, 2, 3, 4, 5, 6, 7, 8]
        \<in> set (snd (snd (last (clicks (\<lambda>k. sorted_iter) (fresh 8)
              (map (\<lambda>u. (click_by u, all_ok)) [8, 7, 6, 5, 4, 3, 2, 1])))))
   \<and> mentioning [8, 7, 6, 5, 4, 3, 2, 1]
        \<notin> set (snd (snd (last (clicks (\<lambda>k. sorted_iter) (fresh 8)
              (map (\<lambda>u. (click_by u, all_ok)) [8, 7, 6, 5, 4, 3, 2, 1])))))"
proof -
  let ?r = "last (clicks (\<lambda>k. sorted_iter) (fresh 8)
    (map (\<lambda>u. (click_by u, all_ok)) [8, 7, 6, 5, 4, 3, 2, 1]))"
  have events: "snd (snd ?r) =
      [Call (EditMessage ''Vote (8)''), Call MessageDelete, Call (ChannelSend (uid_mention 1)),
       mentioning (sorted_iter {|1, 2, 3, 4, 5, 6, 7, 8|})]"
    by (simp add: eval_defs starter_mention_def mentioning_def reply_msg_def voter_mentions_def
        vote_label_def str_nat.simps digit_def)
  have order: "sorted_iter {|1, 2, 3, 4, 5, 6, 7, 8|} = [1, 2, 3, 4, 5, 6, 7, 8]"
    by (simp add: sorted_iter_empty sorted_iter_finsert)
  have differ: "mentioning [8, 7, 6, 5, 4, 3, 2, 1] \<noteq> mentioning [1, 2, 3, 4, 5, 6, 7, 8]"
    by (simp add: mentioning_def uid_mention_def str_int_def str_nat.simps digit_def)
  have "mentioning [8, 7, 6, 5, 4, 3, 2, 1] \<notin> set (snd (snd ?r))"
    unfolding events order using differ by (simp add: mentioning_def)
  moreover have "mentioning [1, 2, 3, 4, 5, 6, 7, 8] \<in> set (snd (snd ?r))"
    unfolding events order by simp
  ultimately show ?thesis
    by (simp add: iter_ok_sorted_iter)
qed

section \<open>Creating the view\<close>

text \<open>
  Claim C5, as the code has it. The constructor has no check and never fails: for every
  threshold, positive or not, it gives a view with an empty voter set, the label
  "Vote (0)", and the threshold and starter it was given. A threshold of 0 or less is
  accepted like 1: the first vote click whose edit returns starts the session.
\<close>

theorem init_view_never_fails:
  "init_view T st =
     Inr \<lparr>voters = {||}, vote_threshold = T, starter = st, label = ''Vote (0)''\<rparr>
   \<and> (\<forall>e. init_view T st \<noteq> Inl e)
   \<and> (T \<le> 1 \<and> init_view T st = Inr s0 \<and> io (AwaitEditAdded 1) = Ok \<longrightarrow>
        announced (vote_button iter i io s0))"
proof (intro conjI impI)
  show "init_view T st =
     Inr \<lparr>voters = {||}, vote_threshold = T, starter = st, label = ''Vote (0)''\<rparr>"
    by (simp add: init_view_def)
  show "\<forall>e. init_view T st \<noteq> Inl e"
    by (simp add: init_view_def)
next
  assume a: "T \<le> 1 \<and> init_view T st = Inr s0 \<and> io (AwaitEditAdded 1) = Ok"
  then have s0: "voters s0 = {||}" "vote_threshold s0 = T"
    by (auto simp: init_view_def)
  have absent: "member_id (user i) |\<notin>| voters s0"
    by (simp add: s0)
  have c: "fcard (finsert (member_id (user i)) (voters s0)) = 1"
    by (simp add: s0 fcard_finsert_if fcard_fempty)
  from a have cross: "vote_threshold s0 \<le> int (fcard (finsert (member_id (user i)) (voters s0)))"
    unfolding c by (simp add: s0)
  from a have edit: "io (AwaitEditAdded (fcard (finsert (member_id (user i)) (voters s0)))) = Ok"
    unfolding c by simp
  show "announced (vote_button iter i io s0)"
    by (simp add: vote_button_absent_cross [of i s0 io, OF absent cross edit] Let_def
        announced_def)
qed

theorem init_view_never_fails_witness:
  "(0::int) \<le> 1 \<and> init_view 0 None = Inr (fresh 0) \<and> all_ok (AwaitEditAdded 1) = Ok
   \<and> announced (vote_button sorted_iter (click_by 1) all_ok (fresh 0))"
  using init_view_never_fails [of 0 None "fresh 0" all_ok sorted_iter "click_by 1"]
  by (simp add: init_view_def fresh_def all_ok_def)

text \<open>Claim C5 as stated fails: a threshold of 0, or of -5, is accepted and no
  configuration error is raised.\<close>

theorem init_view_counterexample:
  "init_view 0 None = Inr (fresh 0) \<and> init_view (- 5) None = Inr (fresh (- 5))
   \<and> init_view 0 None \<noteq> Inl ConfigurationError"
  by (simp add: init_view_def fresh_def)

section \<open>What happens before and after an \<open>await\<close>\<close>

text \<open>
  Claim C4, as the code has it. The first segment of the Vote callback, which runs before
  any \<open>await\<close>, toggles the clicking user, takes the count, relabels the button and calls
  \<open>edit_message\<close>. The comparison of that count with the threshold is made in the next
  segment, after the edit has returned, and is not made at all when the edit raises. On
  the session start path the voter set is read for the mentions after \<open>channel.send\<close> has
  returned, and it is emptied, and the label reset, only after \<open>reply\<close> has returned. No
  other segment changes the view.
\<close>

theorem segments_and_mutations:
  "(let u = member_id (user i); r = vote_button_begin i s; s' = fst (snd r) in
      voters s' = (if u |\<in>| voters s then voters s |-| {|u|} else finsert u (voters s))
      \<and> label s' = vote_label (fcard (voters s'))
      \<and> fst r = (if u |\<in>| voters s then AwaitEditRemoved (fcard (voters s'))
                 else AwaitEditAdded (fcard (voters s')))
      \<and> snd (snd r) = [Call (EditMessage (label s'))])
   \<and> (\<forall>c v. fst (resume iter i Raise (AwaitEditAdded c) v) = Raised)
   \<and> (\<forall>c v. fst (resume iter i Ok (AwaitEditAdded c) v) =
         (if vote_threshold v \<le> int c
          then (if has_message i then AwaitDelete else AwaitChannelSend)
          else AwaitFollowupCounted))
   \<and> (\<forall>v. resume iter i Ok AwaitChannelSend v = (AwaitReply, v, [Call (Reply (reply_msg iter v))]))
   \<and> (\<forall>r t v. fst (snd (resume iter i r t v)) =
         (if r = Ok \<and> t = AwaitReply then v\<lparr>voters := {||}, label := ''Vote (0)''\<rparr> else v))"
proof -
  have "fst (resume iter i Ok (AwaitEditAdded c) v) =
         (if vote_threshold v \<le> int c
          then (if has_message i then AwaitDelete else AwaitChannelSend)
          else AwaitFollowupCounted)" for c v
    by (simp add: Let_def)
  then show ?thesis
    by (simp add: vote_button_begin_def Let_def resume_view)
qed

text \<open>
  Claim C4 as stated fails. Threshold 1, one click by user 1. When the callback is first
  suspended the vote is in the set and no comparison with the threshold has been made; if
  the edit raises, the callback ends there, the count at the threshold and no session
  started. If every call returns, the voter set is emptied by the last segment, after the
  fourth \<open>await\<close>.
\<close>

theorem mutation_after_await_counterexample:
  "vote_button_begin (click_by 1) (fresh 1) =
     (AwaitEditAdded 1, \<lparr>voters = {|1|}, vote_threshold = 1, starter = None, label = ''Vote (1)''\<rparr>,
      [Call (EditMessage ''Vote (1)'')])
   \<and> vote_button sorted_iter (click_by 1) (\<lambda>t. Raise) (fresh 1) =
     (Raised, \<lparr>voters = {|1|}, vote_threshold = 1, starter = None, label = ''Vote (1)''\<rparr>,
      [Call (EditMessage ''Vote (1)'')])
   \<and> resume sorted_iter (click_by 1) Ok AwaitReply
       \<lparr>voters = {|1|}, vote_threshold = 1, starter = None, label = ''Vote (1)''\<rparr> =
     (Returned, \<lparr>voters = {||}, vote_threshold = 1, starter = None, label = ''Vote (0)''\<rparr>, [])
   \<and> voters (fst (snd (vote_button sorted_iter (click_by 1) all_ok (fresh 1)))) = {||}"
  by (simp add: eval_defs vote_label_def str_nat.simps digit_def)

text \<open>
  Two clicks whose callbacks interleave. Threshold 2, user 1 has voted. User 2 clicks and
  the callback is suspended in its edit; user 3 clicks and that callback is suspended in
  its edit too; then both edits return. Both callbacks find their count at the threshold
  and both enter the session start flow.
\<close>

lemma interleaved_clicks_both_start:
  "(let s = (fresh 2)\<lparr>voters := {|1|}\<rparr>;
        a = vote_button_begin (click_by 2) s;
        b = vote_button_begin (click_by 3) (fst (snd a));
        a' = resume sorted_iter (click_by 2) Ok (fst a) (fst (snd b));
        b' = resume sorted_iter (click_by 3) Ok (fst b) (fst (snd a'))
    in fst a' = AwaitDelete \<and> fst b' = AwaitDelete \<and> voters (fst (snd b')) = {|3, 2, 1|})"
  by (simp add: eval_defs)

end
